theory Spec2Isabelle
  imports Main "HOL-Library.Multiset"
begin

section \<open>JavaScript values\<close>

text \<open>
  The values that \<open>JSON.parse\<close> can produce, and \<open>undefined\<close>, which a function
  returns when it ends without a value and which reading an absent property yields.
  Numbers are modelled by \<open>int\<close>: every number the program creates itself is a
  reading of \<open>Date.now()\<close>, a count of milliseconds, and the program does nothing
  with a number but store it and compare it with another through the sign of their
  difference. An object is the list of its own properties.
\<close>

datatype js =
    Undefined
  | Null
  | Bool bool
  | Num int
  | Str string
  | Arr "js list"
  | Obj "(string \<times> js) list"

fun typeof :: "js \<Rightarrow> string" where
  "typeof Undefined = ''undefined''"
| "typeof Null = ''object''"
| "typeof (Bool b) = ''boolean''"
| "typeof (Num n) = ''number''"
| "typeof (Str s) = ''string''"
| "typeof (Arr xs) = ''object''"
| "typeof (Obj fs) = ''object''"

text \<open>Truthiness, as \<open>!v\<close>, \<open>v && w\<close> and \<open>if (v)\<close> decide it.\<close>

fun truthy :: "js \<Rightarrow> bool" where
  "truthy Undefined = False"
| "truthy Null = False"
| "truthy (Bool b) = b"
| "truthy (Num n) = (n \<noteq> 0)"
| "truthy (Str s) = (s \<noteq> [])"
| "truthy (Arr xs) = True"
| "truthy (Obj fs) = True"

text \<open>
  Property access \<open>v.k\<close>, for the five keys the program reads (\<open>id\<close>, \<open>title\<close>,
  \<open>content\<close>, \<open>createdAt\<close>, \<open>updatedAt\<close>): an object yields its own property or
  \<open>undefined\<close>; numbers, booleans, strings and arrays have none of these keys. The
  program reads a property only of a truthy value, so the TypeError of \<open>null.k\<close> never
  arises.
\<close>

fun property :: "js \<Rightarrow> string \<Rightarrow> js" where
  "property (Obj fs) k = (case map_of fs k of Some v \<Rightarrow> v | None \<Rightarrow> Undefined)"
| "property v k = Undefined"

fun isArray :: "js \<Rightarrow> bool" where
  "isArray (Arr xs) = True"
| "isArray v = False"

fun elements :: "js \<Rightarrow> js list" where
  "elements (Arr xs) = xs"
| "elements v = []"

text \<open>
  \<open>String(v)\<close> is the identity on strings. \<open>loadFromStorage\<close> applies it to ids that
  passed the test \<open>typeof n.id === "string"\<close> only; the conversions of other values are
  written out for the primitive constants and left empty elsewhere.
\<close>

fun String_of :: "js \<Rightarrow> string" where
  "String_of (Str s) = s"
| "String_of Undefined = ''undefined''"
| "String_of Null = ''null''"
| "String_of (Bool b) = (if b then ''true'' else ''false'')"
| "String_of v = []"

text \<open>
  \<open>Array.prototype.sort\<close> with a comparator: a stable sort that puts \<open>a\<close> before \<open>b\<close>
  when \<open>cmp a b \<le> 0\<close>. It is modelled by stable insertion.
\<close>

fun sort_insert :: "('a \<Rightarrow> 'a \<Rightarrow> int) \<Rightarrow> 'a \<Rightarrow> 'a list \<Rightarrow> 'a list" where
  "sort_insert cmp x [] = [x]"
| "sort_insert cmp x (y # ys) =
     (if cmp x y \<le> 0 then x # y # ys else y # sort_insert cmp x ys)"

definition array_sort :: "('a \<Rightarrow> 'a \<Rightarrow> int) \<Rightarrow> 'a list \<Rightarrow> 'a list" where
  "array_sort cmp xs = foldr (sort_insert cmp) xs []"

section \<open>State\<close>

record Note =
  note_id :: string
  title :: string
  content :: string
  createdAt :: int
  updatedAt :: int

text \<open>
  The module variables \<open>notes\<close>, \<open>activeNoteId\<close> and \<open>autosaveTimer\<close>, the parts of the
  page the program reads and writes (the values of the two inputs, the entries of the
  list element, each entry represented by the note it was built from), the value stored
  under \<open>STORAGE_KEY\<close>, and the browser's table of pending timeouts (handle and due
  time) with the last handle it issued. Every timeout of this program has the same
  callback, \<open>saveActiveNote\<close>, so the table does not store it.
\<close>

record state =
  "notes" :: "Note list"
  activeNoteId :: "string option"
  autosaveTimer :: "nat option"
  titleInput :: string
  contentInput :: string
  notesListEl :: "Note list"
  storage :: "string option"
  timers :: "(nat \<times> int) list"
  lastTimer :: nat

text \<open>The state when the script starts, with a given stored value and an empty page.\<close>

definition fresh :: "string option \<Rightarrow> state" where
  "fresh raw =
     \<lparr> notes = [], activeNoteId = None, autosaveTimer = None,
       titleInput = [], contentInput = [], notesListEl = [],
       storage = raw, timers = [], lastTimer = 0 \<rparr>"

section \<open>Helpers\<close>

definition getActiveNote :: "state \<Rightarrow> Note option" where
  "getActiveNote s = find (\<lambda>n. Some (note_id n) = activeNoteId s) (notes s)"

definition by_updatedAt_desc :: "Note \<Rightarrow> Note \<Rightarrow> int" where
  "by_updatedAt_desc a b = updatedAt b - updatedAt a"

definition sortNotesByUpdatedAtDesc :: "state \<Rightarrow> state" where
  "sortNotesByUpdatedAtDesc s = s\<lparr>notes := array_sort by_updatedAt_desc (notes s)\<rparr>"

section \<open>Storage\<close>

text \<open>The filter of \<open>loadFromStorage\<close>: \<open>n && typeof n.id === "string"\<close>.\<close>

definition has_string_id :: "js \<Rightarrow> bool" where
  "has_string_id n = (truthy n \<and> typeof (property n ''id'') = ''string'')"

text \<open>
  The map of \<open>loadFromStorage\<close>. Each \<open>Date.now()\<close> is a reading of the clock of its
  own: \<open>clk k\<close> is the value of the \<open>k\<close>-th reading made during the call, and the
  counter is threaded through the records in order, \<open>createdAt\<close> before \<open>updatedAt\<close>.
\<close>

fun sanitize :: "(nat \<Rightarrow> int) \<Rightarrow> nat \<Rightarrow> js list \<Rightarrow> Note list" where
  "sanitize clk k [] = []"
| "sanitize clk k (n # ns) =
     (let c = property n ''createdAt'';
          u = property n ''updatedAt'';
          k1 = (if typeof c = ''number'' then k else Suc k);
          k2 = (if typeof u = ''number'' then k1 else Suc k1)
      in \<lparr> note_id = String_of (property n ''id''),
           title = (case property n ''title'' of Str t \<Rightarrow> t | _ \<Rightarrow> []),
           content = (case property n ''content'' of Str t \<Rightarrow> t | _ \<Rightarrow> []),
           createdAt = (case c of Num v \<Rightarrow> v | _ \<Rightarrow> clk k),
           updatedAt = (case u of Num v \<Rightarrow> v | _ \<Rightarrow> clk k1) \<rparr>
         # sanitize clk k2 ns)"

text \<open>
  \<open>parse\<close> is \<open>JSON.parse\<close>, \<open>None\<close> when it throws; the \<open>catch\<close> turns that into the
  empty list. \<open>!raw\<close> holds for the missing key and for the empty string.
\<close>

definition loadFromStorage :: "(string \<Rightarrow> js option) \<Rightarrow> (nat \<Rightarrow> int) \<Rightarrow> state \<Rightarrow> Note list" where
  "loadFromStorage parse clk s =
     (case storage s of
        None \<Rightarrow> []
      | Some raw \<Rightarrow>
          if raw = [] then []
          else (case parse raw of
                  None \<Rightarrow> []
                | Some parsed \<Rightarrow>
                    if \<not> isArray parsed then []
                    else sanitize clk 0 (filter has_string_id (elements parsed))))"

definition note_js :: "Note \<Rightarrow> js" where
  "note_js n =
     Obj [(''id'', Str (note_id n)), (''title'', Str (title n)), (''content'', Str (content n)),
          (''createdAt'', Num (createdAt n)), (''updatedAt'', Num (updatedAt n))]"

text \<open>
  \<open>stringify\<close> is \<open>JSON.stringify\<close>. The write is taken to succeed: a storage that
  rejects it is not modelled.
\<close>

definition saveToStorage :: "(js \<Rightarrow> string) \<Rightarrow> state \<Rightarrow> state" where
  "saveToStorage stringify s = s\<lparr>storage := Some (stringify (Arr (map note_js (notes s))))\<rparr>"

section \<open>Rendering\<close>

definition renderNotesList :: "state \<Rightarrow> state" where
  "renderNotesList s =
     (let s1 = sortNotesByUpdatedAtDesc s in s1\<lparr>notesListEl := notes s1\<rparr>)"

definition renderEditor :: "state \<Rightarrow> state" where
  "renderEditor s =
     (case getActiveNote s of
        None \<Rightarrow> s\<lparr>titleInput := [], contentInput := []\<rparr>
      | Some n \<Rightarrow> s\<lparr>titleInput := title n, contentInput := content n\<rparr>)"

section \<open>Actions\<close>

text \<open>
  Each action returns the value the JavaScript function returns, and the new state.
  \<open>now\<close> is the reading of \<open>Date.now()\<close> the action makes, \<open>newId\<close> the result of
  \<open>generateId()\<close>, \<open>ok\<close> the answer of \<open>confirm\<close>.
\<close>

definition createNewNote :: "(js \<Rightarrow> string) \<Rightarrow> int \<Rightarrow> string \<Rightarrow> state \<Rightarrow> js \<times> state" where
  "createNewNote stringify now newId s =
     (let newNote = \<lparr> note_id = newId, title = [], content = [],
                       createdAt = now, updatedAt = now \<rparr>;
          s1 = s\<lparr>notes := newNote # notes s\<rparr>;
          s2 = s1\<lparr>activeNoteId := Some (note_id newNote)\<rparr>
      in (Undefined, renderEditor (renderNotesList (saveToStorage stringify s2))))"

definition openNote :: "string \<Rightarrow> state \<Rightarrow> js \<times> state" where
  "openNote i s =
     (if \<not> list_ex (\<lambda>n. note_id n = i) (notes s) then (Undefined, s)
      else (Undefined, renderEditor (renderNotesList (s\<lparr>activeNoteId := Some i\<rparr>))))"

text \<open>
  \<open>find\<close> returns the first note with the active id, and \<open>saveActiveNote\<close> assigns to
  the fields of that object: the first match is updated where it stands.
\<close>

fun update_first :: "('a \<Rightarrow> bool) \<Rightarrow> ('a \<Rightarrow> 'a) \<Rightarrow> 'a list \<Rightarrow> 'a list" where
  "update_first P f [] = []"
| "update_first P f (x # xs) = (if P x then f x # xs else x # update_first P f xs)"

definition saveActiveNote :: "(js \<Rightarrow> string) \<Rightarrow> int \<Rightarrow> state \<Rightarrow> js \<times> state" where
  "saveActiveNote stringify now s =
     (case getActiveNote s of
        None \<Rightarrow> (Undefined, s)
      | Some note \<Rightarrow>
          (let s1 = s\<lparr>notes := update_first (\<lambda>n. Some (note_id n) = activeNoteId s)
                      (\<lambda>n. n\<lparr>title := titleInput s, content := contentInput s,
                             updatedAt := now\<rparr>) (notes s)\<rparr>
           in (Undefined, renderNotesList (saveToStorage stringify s1))))"

definition deleteActiveNote :: "(js \<Rightarrow> string) \<Rightarrow> bool \<Rightarrow> state \<Rightarrow> js \<times> state" where
  "deleteActiveNote stringify ok s =
     (case getActiveNote s of
        None \<Rightarrow> (Undefined, s)
      | Some note \<Rightarrow>
          if \<not> ok then (Undefined, s)
          else
            (let s1 = s\<lparr>notes := filter (\<lambda>n. Some (note_id n) \<noteq> activeNoteId s) (notes s)\<rparr>;
                 s2 = s1\<lparr>activeNoteId :=
                          (case notes s1 of [] \<Rightarrow> None | n # ns \<Rightarrow> Some (note_id n))\<rparr>
             in (Undefined, renderEditor (renderNotesList (saveToStorage stringify s2)))))"

text \<open>
  \<open>clearTimeout\<close> removes a handle from the table (and does nothing for a handle that
  is not pending); \<open>setTimeout\<close> issues a handle greater than zero that it never issued
  before. \<open>now\<close> is the time of the call; the delay is 350 ms.
\<close>

definition clearTimeout :: "nat \<Rightarrow> state \<Rightarrow> state" where
  "clearTimeout h s = s\<lparr>timers := filter (\<lambda>(h', d). h' \<noteq> h) (timers s)\<rparr>"

definition setTimeout :: "int \<Rightarrow> int \<Rightarrow> state \<Rightarrow> nat \<times> state" where
  "setTimeout delay now s =
     (let h = Suc (lastTimer s)
      in (h, s\<lparr>timers := timers s @ [(h, now + delay)], lastTimer := h\<rparr>))"

definition scheduleAutosave :: "int \<Rightarrow> state \<Rightarrow> state" where
  "scheduleAutosave now s =
     (let s1 = (case autosaveTimer s of
                  None \<Rightarrow> s
                | Some h \<Rightarrow> if h \<noteq> 0 then clearTimeout h s else s);
          (h', s2) = setTimeout 350 now s1
      in s2\<lparr>autosaveTimer := Some h'\<rparr>)"

section \<open>Init and events\<close>

definition init :: "(string \<Rightarrow> js option) \<Rightarrow> (nat \<Rightarrow> int) \<Rightarrow> state \<Rightarrow> state" where
  "init parse clk s =
     (let s1 = s\<lparr>notes := loadFromStorage parse clk s\<rparr>;
          s2 = sortNotesByUpdatedAtDesc s1;
          s3 = s2\<lparr>activeNoteId :=
                   (case notes s2 of [] \<Rightarrow> None | n # ns \<Rightarrow> Some (note_id n))\<rparr>
      in renderEditor (renderNotesList s3))"

text \<open>
  The events the script listens to. An input event carries the new value of the field,
  which the browser has stored in the input before the listener runs. A click on a list
  entry carries the id of its note; a click on the create button the id that
  \<open>generateId\<close> will return; a click on the delete button the answer \<open>confirm\<close> will
  give; a key press whether the platform is a Mac, the two modifier keys and the key.
\<close>

datatype event =
    ClickCreate string
  | ClickEntry string
  | ClickSave
  | ClickDelete bool
  | InputTitle string
  | InputContent string
  | KeyDown bool bool bool string

definition input_listener :: "int \<Rightarrow> state \<Rightarrow> state" where
  "input_listener now s =
     (if activeNoteId s = None \<or> activeNoteId s = Some [] then s
      else renderNotesList (scheduleAutosave now s))"

definition saveCombo :: "bool \<Rightarrow> bool \<Rightarrow> bool \<Rightarrow> string \<Rightarrow> bool" where
  "saveCombo isMac metaKey ctrlKey key =
     ((isMac \<and> metaKey \<and> key = ''s'') \<or> (\<not> isMac \<and> ctrlKey \<and> key = ''s''))"

fun dispatch :: "(js \<Rightarrow> string) \<Rightarrow> event \<Rightarrow> int \<Rightarrow> state \<Rightarrow> state" where
  "dispatch stringify (ClickCreate newId) now s = snd (createNewNote stringify now newId s)"
| "dispatch stringify (ClickEntry i) now s = snd (openNote i s)"
| "dispatch stringify ClickSave now s = snd (saveActiveNote stringify now s)"
| "dispatch stringify (ClickDelete ok) now s = snd (deleteActiveNote stringify ok s)"
| "dispatch stringify (InputTitle v) now s = input_listener now (s\<lparr>titleInput := v\<rparr>)"
| "dispatch stringify (InputContent v) now s = input_listener now (s\<lparr>contentInput := v\<rparr>)"
| "dispatch stringify (KeyDown isMac metaKey ctrlKey key) now s =
     (if saveCombo isMac metaKey ctrlKey key then snd (saveActiveNote stringify now s) else s)"

text \<open>
  A pending timeout fires: the browser removes it from its table and runs the callback,
  which is \<open>saveActiveNote\<close>. Firing a handle that is not pending does nothing.
\<close>

definition fire :: "(js \<Rightarrow> string) \<Rightarrow> nat \<Rightarrow> int \<Rightarrow> state \<Rightarrow> state" where
  "fire stringify h now s =
     (if h \<in> set (map fst (timers s))
      then snd (saveActiveNote stringify now (clearTimeout h s))
      else s)"

text \<open>
  Any schedule: a list of steps, each with the time at which it happens. A step is an
  event or the firing of a timeout, at or after its due time.
\<close>

datatype step = User event | Timeout nat

fun step_fn :: "(js \<Rightarrow> string) \<Rightarrow> int \<times> step \<Rightarrow> state \<Rightarrow> state" where
  "step_fn stringify (now, User e) s = dispatch stringify e now s"
| "step_fn stringify (now, Timeout h) s =
     (if list_ex (\<lambda>(h', d). h' = h \<and> d \<le> now) (timers s) then fire stringify h now s
      else s)"

definition exec :: "(js \<Rightarrow> string) \<Rightarrow> (int \<times> step) list \<Rightarrow> state \<Rightarrow> state" where
  "exec stringify tr s = foldl (\<lambda>s st. step_fn stringify st s) s tr"

text \<open>
  The punctual schedule: every timeout fires exactly at its due time. \<open>advance t\<close> fires
  the timeouts due by \<open>t\<close>, earliest first, and \<open>run\<close> does so before each event of a
  timed list of events. Both return the times at which a timeout fired, in order: the
  autosaves.
\<close>

definition due :: "int \<Rightarrow> state \<Rightarrow> (nat \<times> int) list" where
  "due t s = sort_key snd (filter (\<lambda>(h, d). d \<le> t) (timers s))"

definition advance :: "(js \<Rightarrow> string) \<Rightarrow> int \<Rightarrow> state \<Rightarrow> int list \<times> state" where
  "advance stringify t s =
     (map snd (due t s), foldl (\<lambda>s (h, d). fire stringify h d s) s (due t s))"

fun run :: "(js \<Rightarrow> string) \<Rightarrow> (int \<times> event) list \<Rightarrow> state \<Rightarrow> int list \<times> state" where
  "run stringify [] s = ([], s)"
| "run stringify ((t, e) # es) s =
     (let (l1, s1) = advance stringify t s;
          s2 = dispatch stringify e t s1;
          (l2, s3) = run stringify es s2
      in (l1 @ l2, s3))"

section \<open>Properties named in the specification\<close>

text \<open>Sorted by \<open>updatedAt\<close>, latest first.\<close>

definition sorted_desc :: "Note list \<Rightarrow> bool" where
  "sorted_desc xs = sorted_wrt (\<lambda>a b. updatedAt b \<le> updatedAt a) xs"

text \<open>The list element shows the collection, and the collection is sorted.\<close>

definition listed :: "state \<Rightarrow> bool" where
  "listed s = (notesListEl s = notes s \<and> sorted_desc (notes s))"

text \<open>
  The sanitization rule in the specification's words: a record without a string \<open>id\<close>
  is discarded; \<open>title\<close> and \<open>content\<close> default to the empty string when they are not
  strings; \<open>createdAt\<close> and \<open>updatedAt\<close> default to the current time when they are
  not numbers. \<open>spec_loadAll\<close> is empty for a missing key, for a text that does not
  parse and for a parsed value that is not an array.
\<close>

definition string_field :: "js \<Rightarrow> string \<Rightarrow> string option" where
  "string_field n k =
     (case n of
        Obj fs \<Rightarrow> (case map_of fs k of Some (Str v) \<Rightarrow> Some v | _ \<Rightarrow> None)
      | _ \<Rightarrow> None)"

definition number_field :: "js \<Rightarrow> string \<Rightarrow> int option" where
  "number_field n k =
     (case n of
        Obj fs \<Rightarrow> (case map_of fs k of Some (Num v) \<Rightarrow> Some v | _ \<Rightarrow> None)
      | _ \<Rightarrow> None)"

definition spec_sanitize :: "int \<Rightarrow> js \<Rightarrow> Note option" where
  "spec_sanitize now n =
     (case string_field n ''id'' of
        None \<Rightarrow> None
      | Some i \<Rightarrow>
          Some \<lparr> note_id = i,
                 title = (case string_field n ''title'' of Some t \<Rightarrow> t | None \<Rightarrow> []),
                 content = (case string_field n ''content'' of Some t \<Rightarrow> t | None \<Rightarrow> []),
                 createdAt = (case number_field n ''createdAt'' of Some v \<Rightarrow> v | None \<Rightarrow> now),
                 updatedAt = (case number_field n ''updatedAt'' of Some v \<Rightarrow> v | None \<Rightarrow> now) \<rparr>)"

definition spec_loadAll :: "(string \<Rightarrow> js option) \<Rightarrow> int \<Rightarrow> string option \<Rightarrow> Note list" where
  "spec_loadAll parse now raw =
     (case raw of
        None \<Rightarrow> []
      | Some r \<Rightarrow>
          (case parse r of
             Some (Arr xs) \<Rightarrow> List.map_filter (spec_sanitize now) xs
           | _ \<Rightarrow> []))"

text \<open>Every stored record that \<open>loadFromStorage\<close> keeps has both timestamps numeric.\<close>

definition numeric_timestamps :: "(string \<Rightarrow> js option) \<Rightarrow> state \<Rightarrow> bool" where
  "numeric_timestamps parse s =
     (case storage s of
        None \<Rightarrow> True
      | Some raw \<Rightarrow>
          (case parse raw of
             None \<Rightarrow> True
           | Some parsed \<Rightarrow>
               list_all (\<lambda>n. typeof (property n ''createdAt'') = ''number''
                            \<and> typeof (property n ''updatedAt'') = ''number'')
                 (filter has_string_id (elements parsed))))"

text \<open>
  The events that are edits, the values they stage in the two inputs, and times each
  less than the debounce delay after the one before.
\<close>

fun is_edit :: "event \<Rightarrow> bool" where
  "is_edit (InputTitle v) = True"
| "is_edit (InputContent v) = True"
| "is_edit e = False"

fun stage :: "string \<times> string \<Rightarrow> event \<Rightarrow> string \<times> string" where
  "stage (t, c) (InputTitle v) = (v, c)"
| "stage (t, c) (InputContent v) = (t, v)"
| "stage (t, c) e = (t, c)"

definition staged :: "event list \<Rightarrow> state \<Rightarrow> string \<times> string" where
  "staged es s = foldl stage (titleInput s, contentInput s) es"

definition closely_spaced :: "int list \<Rightarrow> bool" where
  "closely_spaced ts = successively (\<lambda>a b. a \<le> b \<and> b < a + 350) ts"

text \<open>
  At most one timeout is pending, and it is the one whose handle \<open>autosaveTimer\<close>
  holds.
\<close>

definition tracked :: "state \<Rightarrow> bool" where
  "tracked s =
     (case timers s of
        [] \<Rightarrow> True
      | [(h, d)] \<Rightarrow> autosaveTimer s = Some h \<and> h \<noteq> 0
      | _ \<Rightarrow> False)"

text \<open>The explicit saves: the save button, and the key press that is the save combination.\<close>

fun is_explicit_save :: "event \<Rightarrow> bool" where
  "is_explicit_save ClickSave = True"
| "is_explicit_save (KeyDown isMac metaKey ctrlKey key) = saveCombo isMac metaKey ctrlKey key"
| "is_explicit_save e = False"

section \<open>Example environments\<close>

text \<open>
  Stand-ins for the browser in the examples: a \<open>JSON.parse\<close> that knows one text, a
  \<open>JSON.stringify\<close> that writes the ids of the notes only, and a clock that ticks at
  every reading.
\<close>

definition parse_only :: "string \<Rightarrow> js \<Rightarrow> string \<Rightarrow> js option" where
  "parse_only text v raw = (if raw = text then Some v else None)"

definition stringify_ids :: "js \<Rightarrow> string" where
  "stringify_ids v = concat (map (\<lambda>n. String_of (property n ''id'') @ '';'') (elements v))"

definition ticking :: "int \<Rightarrow> nat \<Rightarrow> int" where
  "ticking t k = t + int k"

definition steady :: "int \<Rightarrow> nat \<Rightarrow> int" where
  "steady t k = t"

text \<open>The stored array of the specification's scenario, and one with a single bare record.\<close>

definition scenario_records :: js where
  "scenario_records =
     Arr [Obj [(''id'', Str ''x'')],
          Obj [(''foo'', Num 1)],
          Obj [(''id'', Str ''y''), (''title'', Str ''T''), (''updatedAt'', Num 5)]]"

definition bare_record :: js where
  "bare_record = Arr [Obj [(''id'', Str ''x'')]]"

definition stamped_record :: js where
  "stamped_record = Arr [Obj [(''id'', Str ''x''), (''createdAt'', Num 3), (''updatedAt'', Num 4)]]"

definition twin_records :: js where
  "twin_records = Arr [Obj [(''id'', Str ''x'')], Obj [(''id'', Str ''x'')]]"

text \<open>
  Example states: the page after \<open>init\<close> on an empty stored array, after creating the
  note \<open>n1\<close> at time 1000, after creating \<open>n2\<close> at time 1020 as well, after typing
  a title into \<open>n1\<close> at time 1010, and after \<open>init\<close> on two stored records with the
  same id. \<open>typing\<close> is a burst of three edits.
\<close>

definition empty_page :: state where
  "empty_page = init (parse_only ''[]'' (Arr [])) (steady 0) (fresh (Some ''[]''))"

definition one_note :: state where
  "one_note = exec stringify_ids [(1000, User (ClickCreate ''n1''))] empty_page"

definition two_notes :: state where
  "two_notes =
     exec stringify_ids
       [(1000, User (ClickCreate ''n1'')), (1020, User (ClickCreate ''n2''))] empty_page"

definition edited :: state where
  "edited = dispatch stringify_ids (InputTitle ''Hello'') 1010 one_note"

definition twins :: state where
  "twins = init (parse_only ''[{id:x},{id:x}]'' twin_records) (steady 5)
             (fresh (Some ''[{id:x},{id:x}]''))"

definition typing :: "(int \<times> event) list" where
  "typing = [(1010, InputTitle ''He''), (1100, InputTitle ''Hello''), (1200, InputContent ''World'')]"

section \<open>Sorting\<close>

lemma set_sort_insert: "set (sort_insert cmp x xs) = insert x (set xs)"
  by (induction xs) auto

lemma mset_sort_insert: "mset (sort_insert cmp x xs) = add_mset x (mset xs)"
  by (induction xs) auto

lemma mset_array_sort: "mset (array_sort cmp xs) = mset xs"
  by (induction xs) (auto simp: array_sort_def mset_sort_insert)

lemma sorted_sort_insert:
  "sorted_desc xs \<Longrightarrow> sorted_desc (sort_insert by_updatedAt_desc x xs)"
  by (induction xs) (auto simp: sorted_desc_def set_sort_insert by_updatedAt_desc_def)

lemma sorted_array_sort: "sorted_desc (array_sort by_updatedAt_desc xs)"
proof (induction xs)
  case Nil
  show ?case by (simp add: array_sort_def sorted_desc_def)
next
  case (Cons x xs)
  then show ?case
    using sorted_sort_insert [of "array_sort by_updatedAt_desc xs" x]
    by (simp add: array_sort_def)
qed

text \<open>Sorting a sorted collection leaves it as it is.\<close>

lemma array_sort_sorted:
  "sorted_desc xs \<Longrightarrow> array_sort by_updatedAt_desc xs = xs"
proof (induction xs)
  case Nil
  show ?case by (simp add: array_sort_def)
next
  case (Cons x xs)
  then have "array_sort by_updatedAt_desc xs = xs"
    by (simp add: sorted_desc_def)
  moreover have "sort_insert by_updatedAt_desc x xs = x # xs"
    using Cons.prems by (cases xs) (auto simp: sorted_desc_def by_updatedAt_desc_def)
  ultimately show ?case by (simp add: array_sort_def)
qed

section \<open>The rendered list\<close>

lemma listed_renderNotesList: "listed (renderNotesList s)"
  by (simp add: listed_def renderNotesList_def sortNotesByUpdatedAtDesc_def Let_def
      sorted_array_sort)

lemma listed_renderEditor: "listed s \<Longrightarrow> listed (renderEditor s)"
  by (simp add: listed_def renderEditor_def split: option.splits)

lemma listed_init: "listed (init parse clk s)"
  by (simp add: init_def Let_def listed_renderEditor listed_renderNotesList)

lemma listed_saveActiveNote: "listed s \<Longrightarrow> listed (snd (saveActiveNote stringify now s))"
  by (simp add: saveActiveNote_def Let_def listed_renderNotesList split: option.splits)

lemma listed_dispatch:
  assumes "listed s"
  shows "listed (dispatch stringify e now s)"
proof (cases e)
  case (ClickCreate newId)
  then show ?thesis
    by (simp add: createNewNote_def Let_def listed_renderEditor listed_renderNotesList)
next
  case (ClickEntry i)
  with assms show ?thesis
    by (simp add: openNote_def listed_renderEditor listed_renderNotesList)
next
  case ClickSave
  with assms show ?thesis by (simp add: listed_saveActiveNote)
next
  case (ClickDelete ok)
  with assms show ?thesis
    by (simp add: deleteActiveNote_def Let_def listed_renderEditor listed_renderNotesList
        split: option.splits)
next
  case (InputTitle v)
  from assms have "listed (s\<lparr>titleInput := v\<rparr>)" by (simp add: listed_def)
  with InputTitle show ?thesis
    by (simp add: input_listener_def listed_renderNotesList)
next
  case (InputContent v)
  from assms have "listed (s\<lparr>contentInput := v\<rparr>)" by (simp add: listed_def)
  with InputContent show ?thesis
    by (simp add: input_listener_def listed_renderNotesList)
next
  case (KeyDown isMac metaKey ctrlKey key)
  with assms show ?thesis by (simp add: listed_saveActiveNote)
qed

lemma listed_fire:
  assumes "listed s"
  shows "listed (fire stringify h now s)"
proof -
  from assms have "listed (clearTimeout h s)" by (simp add: listed_def clearTimeout_def)
  with assms show ?thesis by (simp add: fire_def listed_saveActiveNote)
qed

lemma listed_step: "listed s \<Longrightarrow> listed (step_fn stringify st s)"
  by (cases st; cases "snd st") (auto simp: listed_dispatch listed_fire)

lemma listed_exec: "listed s \<Longrightarrow> listed (exec stringify tr s)"
  unfolding exec_def by (induction tr arbitrary: s) (simp_all add: listed_step)

text \<open>
  C5. In every state reached from \<open>init\<close> by any schedule of events and timeouts, the
  list element shows its entries sorted by \<open>updatedAt\<close> descending: each entry's
  \<open>updatedAt\<close> is at most that of the entry before it.
\<close>

theorem rendered_list_sorted:
  "let xs = notesListEl (exec stringify tr (init parse clk s))
   in \<forall>i. Suc i < length xs \<longrightarrow> updatedAt (xs ! Suc i) \<le> updatedAt (xs ! i)"
proof -
  have "listed (exec stringify tr (init parse clk s))"
    by (rule listed_exec) (rule listed_init)
  then have "sorted_wrt (\<lambda>a b. updatedAt b \<le> updatedAt a)
               (notesListEl (exec stringify tr (init parse clk s)))"
    by (simp add: listed_def sorted_desc_def)
  then show ?thesis
    by (simp add: sorted_wrt_iff_nth_less)
qed

theorem rendered_list_sorted_witness:
  "let xs = notesListEl
              (exec stringify_ids
                 [(1000, User (ClickCreate ''n1'')), (1020, User (ClickCreate ''n2''))]
                 (init (parse_only ''[]'' (Arr [])) (steady 0) (fresh (Some ''[]''))))
   in Suc 0 < length xs \<and> updatedAt (xs ! Suc 0) \<le> updatedAt (xs ! 0)"
proof -
  let ?xs = "notesListEl
              (exec stringify_ids
                 [(1000, User (ClickCreate ''n1'')), (1020, User (ClickCreate ''n2''))]
                 (init (parse_only ''[]'' (Arr [])) (steady 0) (fresh (Some ''[]''))))"
  have len: "Suc 0 < length ?xs"
    by code_simp
  have "\<forall>i. Suc i < length ?xs \<longrightarrow> updatedAt (?xs ! Suc i) \<le> updatedAt (?xs ! i)"
    using rendered_list_sorted
      [of stringify_ids "[(1000, User (ClickCreate ''n1'')), (1020, User (ClickCreate ''n2''))]"
        "parse_only ''[]'' (Arr [])" "steady 0" "fresh (Some ''[]'')"]
    by (simp only: Let_def)
  with len have "updatedAt (?xs ! Suc 0) \<le> updatedAt (?xs ! 0)"
    by blast
  with len show ?thesis
    by (simp only: Let_def simp_thms)
qed

section \<open>Loading\<close>

lemma has_string_id_iff: "has_string_id n \<longleftrightarrow> string_field n ''id'' \<noteq> None"
  by (cases n) (auto simp: has_string_id_def string_field_def split: option.splits js.splits)

lemma string_field_property:
  "(case property n k of Str t \<Rightarrow> t | _ \<Rightarrow> []) =
   (case string_field n k of Some t \<Rightarrow> t | None \<Rightarrow> [])"
  by (cases n) (auto simp: string_field_def split: option.splits js.splits)

lemma number_field_property:
  "(case property n k of Num v \<Rightarrow> v | _ \<Rightarrow> t) =
   (case number_field n k of Some v \<Rightarrow> v | None \<Rightarrow> t)"
  by (cases n) (auto simp: number_field_def split: option.splits js.splits)

lemma String_of_id: "string_field n ''id'' = Some i \<Longrightarrow> String_of (property n ''id'') = i"
  by (cases n) (auto simp: string_field_def split: option.splits js.splits)

lemma sanitize_constant_clock:
  "sanitize (\<lambda>k. now) k (filter has_string_id xs) = List.map_filter (spec_sanitize now) xs"
proof (induction xs arbitrary: k)
  case Nil
  show ?case by (simp add: map_filter_simps)
next
  case (Cons n ns)
  show ?case
  proof (cases "string_field n ''id''")
    case None
    then show ?thesis
      using Cons.IH by (simp add: has_string_id_iff map_filter_simps spec_sanitize_def)
  next
    case (Some i)
    then show ?thesis
      using Cons.IH
      by (simp add: has_string_id_iff map_filter_simps spec_sanitize_def Let_def
          string_field_property number_field_property String_of_id)
  qed
qed

text \<open>
  C1. \<open>loadFromStorage\<close> returns what the specification's \<open>loadAll\<close> describes: the
  empty list when the key is missing, when the text does not parse and when the parsed
  value is not an array; otherwise the stored records without those that lack a string
  \<open>id\<close>, with \<open>title\<close> and \<open>content\<close> replaced by the empty string when they are not
  strings and \<open>createdAt\<close> and \<open>updatedAt\<close> replaced by the current time \<open>now\<close> when
  they are not numbers. The empty text is not JSON, so \<open>JSON.parse\<close> rejects it.
\<close>

theorem loadFromStorage_sanitizes:
  assumes "parse [] = None"
  shows "loadFromStorage parse (\<lambda>k. now) s = spec_loadAll parse now (storage s)"
proof (cases "storage s")
  case None
  then show ?thesis by (simp add: loadFromStorage_def spec_loadAll_def)
next
  case (Some raw)
  show ?thesis
  proof (cases "parse raw")
    case None
    with Some show ?thesis by (simp add: loadFromStorage_def spec_loadAll_def)
  next
    case (Some parsed)
    with assms have "raw \<noteq> []" by auto
    with Some \<open>storage s = Some raw\<close> show ?thesis
      by (cases parsed)
        (simp_all add: loadFromStorage_def spec_loadAll_def sanitize_constant_clock)
  qed
qed

theorem loadFromStorage_sanitizes_witness:
  "parse_only ''[{id:x},{foo:1},{id:y,title:T,updatedAt:5}]'' scenario_records [] = None
   \<and> loadFromStorage (parse_only ''[{id:x},{foo:1},{id:y,title:T,updatedAt:5}]'' scenario_records)
        (\<lambda>k. 9) (fresh (Some ''[{id:x},{foo:1},{id:y,title:T,updatedAt:5}]''))
     = [\<lparr>note_id = ''x'', title = [], content = [], createdAt = 9, updatedAt = 9\<rparr>,
        \<lparr>note_id = ''y'', title = ''T'', content = [], createdAt = 9, updatedAt = 5\<rparr>]"
proof -
  have h: "parse_only ''[{id:x},{foo:1},{id:y,title:T,updatedAt:5}]'' scenario_records [] = None"
    by (simp add: parse_only_def)
  have "spec_loadAll (parse_only ''[{id:x},{foo:1},{id:y,title:T,updatedAt:5}]'' scenario_records) 9
          (storage (fresh (Some ''[{id:x},{foo:1},{id:y,title:T,updatedAt:5}]'')))
     = [\<lparr>note_id = ''x'', title = [], content = [], createdAt = 9, updatedAt = 9\<rparr>,
        \<lparr>note_id = ''y'', title = ''T'', content = [], createdAt = 9, updatedAt = 5\<rparr>]"
    by (simp add: spec_loadAll_def parse_only_def fresh_def scenario_records_def
        map_filter_simps spec_sanitize_def string_field_def number_field_def)
  with h loadFromStorage_sanitizes
    [of "parse_only ''[{id:x},{foo:1},{id:y,title:T,updatedAt:5}]'' scenario_records" 9
      "fresh (Some ''[{id:x},{foo:1},{id:y,title:T,updatedAt:5}]'')"]
  show ?thesis by simp
qed

text \<open>
  When every kept record has numeric timestamps, no clock reading enters the result.
\<close>

lemma sanitize_numeric:
  "list_all (\<lambda>n. typeof (property n ''createdAt'') = ''number''
                 \<and> typeof (property n ''updatedAt'') = ''number'') xs
   \<Longrightarrow> sanitize clk k xs = sanitize clk' k' xs"
proof (induction xs arbitrary: k k')
  case Nil
  show ?case by simp
next
  case (Cons n ns)
  from Cons.prems obtain c u
    where "property n ''createdAt'' = Num c" "property n ''updatedAt'' = Num u"
    by (cases "property n ''createdAt''"; cases "property n ''updatedAt''") auto
  moreover from Cons have "sanitize clk k ns = sanitize clk' k' ns" by simp
  ultimately show ?case by (simp add: Let_def)
qed

text \<open>
  C9, as the specification states it, fails: a record with a string \<open>id\<close> and no
  timestamps is given the time of the call, so two loads of the same stored value at
  different times differ.
\<close>

theorem loadFromStorage_time_dependent:
  "loadFromStorage (parse_only ''[{id:x}]'' bare_record) (steady 1) (fresh (Some ''[{id:x}]''))
   \<noteq> loadFromStorage (parse_only ''[{id:x}]'' bare_record) (steady 2) (fresh (Some ''[{id:x}]''))"
  by (simp add: loadFromStorage_def parse_only_def bare_record_def fresh_def has_string_id_def
      steady_def Let_def)

text \<open>
  C9, amended. Two calls of \<open>loadFromStorage\<close> with no write to the storage in between
  return identical lists when every stored record with a string \<open>id\<close> has numeric
  \<open>createdAt\<close> and \<open>updatedAt\<close>, whatever the clock reads during either call, and
  when the clock readings of the two calls are the same.
\<close>

theorem loadFromStorage_repeatable:
  assumes "storage s' = storage s"
    and "numeric_timestamps parse s \<or> clk' = clk"
  shows "loadFromStorage parse clk' s' = loadFromStorage parse clk s"
  using assms sanitize_numeric [of _ clk' 0 clk 0]
  by (auto simp: loadFromStorage_def numeric_timestamps_def split: option.splits)

theorem loadFromStorage_repeatable_witness:
  "storage (fresh (Some ''[{id:x,createdAt:3,updatedAt:4}]''))
     = storage (fresh (Some ''[{id:x,createdAt:3,updatedAt:4}]''))
   \<and> numeric_timestamps (parse_only ''[{id:x,createdAt:3,updatedAt:4}]'' stamped_record)
        (fresh (Some ''[{id:x,createdAt:3,updatedAt:4}]''))
   \<and> loadFromStorage (parse_only ''[{id:x,createdAt:3,updatedAt:4}]'' stamped_record) (ticking 2000)
        (fresh (Some ''[{id:x,createdAt:3,updatedAt:4}]''))
     = loadFromStorage (parse_only ''[{id:x,createdAt:3,updatedAt:4}]'' stamped_record) (ticking 1000)
        (fresh (Some ''[{id:x,createdAt:3,updatedAt:4}]''))"
proof -
  have n: "numeric_timestamps (parse_only ''[{id:x,createdAt:3,updatedAt:4}]'' stamped_record)
        (fresh (Some ''[{id:x,createdAt:3,updatedAt:4}]''))"
    by (simp add: numeric_timestamps_def parse_only_def stamped_record_def fresh_def
        has_string_id_def)
  with loadFromStorage_repeatable
    [of "fresh (Some ''[{id:x,createdAt:3,updatedAt:4}]'')"
      "fresh (Some ''[{id:x,createdAt:3,updatedAt:4}]'')"
      "parse_only ''[{id:x,createdAt:3,updatedAt:4}]'' stamped_record" "ticking 2000" "ticking 1000"]
  show ?thesis by simp
qed

section \<open>A deletion that is not confirmed\<close>

text \<open>
  C10. When the delete button is clicked and \<open>confirm\<close> answers false, the state is
  left exactly as it was: the collection, the active selection, the stored value and
  everything else.
\<close>

theorem deleteActiveNote_declined:
  "snd (deleteActiveNote stringify False s) = s
   \<and> dispatch stringify (ClickDelete False) now s = s"
  by (simp add: deleteActiveNote_def split: option.splits)

section \<open>Creating and saving\<close>

lemma renderNotesList_eq:
  "renderNotesList s = s\<lparr>notes := array_sort by_updatedAt_desc (notes s),
                         notesListEl := array_sort by_updatedAt_desc (notes s)\<rparr>"
  by (simp add: renderNotesList_def sortNotesByUpdatedAtDesc_def Let_def)

lemma renderEditor_fields [simp]:
  "notes (renderEditor s) = notes s"
  "activeNoteId (renderEditor s) = activeNoteId s"
  "storage (renderEditor s) = storage s"
  "timers (renderEditor s) = timers s"
  "autosaveTimer (renderEditor s) = autosaveTimer s"
  "notesListEl (renderEditor s) = notesListEl s"
  by (simp_all add: renderEditor_def split: option.splits)

lemma array_sort_Nil_iff: "array_sort cmp xs = [] \<longleftrightarrow> xs = []"
  using mset_array_sort [of cmp xs] by (metis mset_zero_iff)

text \<open>The first match splits the list; \<open>update_first\<close> changes that element only.\<close>

lemma update_first_split:
  "find P xs = Some n \<Longrightarrow>
   xs = takeWhile (\<lambda>m. \<not> P m) xs @ n # tl (dropWhile (\<lambda>m. \<not> P m) xs) \<and> P n \<and>
   update_first P f xs = takeWhile (\<lambda>m. \<not> P m) xs @ f n # tl (dropWhile (\<lambda>m. \<not> P m) xs)"
  by (induction xs) (auto split: if_splits)

lemma update_first_member: "find P xs = Some n \<Longrightarrow> f n \<in> set (update_first P f xs)"
  by (induction xs) (auto split: if_splits)

text \<open>
  C8, as the specification states it, fails: \<open>createNewNote\<close> returns \<open>undefined\<close>,
  not the id of the new note.
\<close>

theorem createNewNote_returns_undefined:
  "fst (createNewNote stringify_ids 1000 ''n1'' (fresh None)) = Undefined
   \<and> fst (createNewNote stringify_ids 1000 ''n1'' (fresh None)) \<noteq> Str ''n1''"
  by (simp add: createNewNote_def Let_def)

text \<open>
  C8, amended. \<open>createNewNote\<close> builds a note with empty title and content whose
  \<open>createdAt\<close> and \<open>updatedAt\<close> both equal the current time, puts it at the head of
  the collection and stores the collection in that order; it then renders, which sorts
  the collection in memory, so the new note stays at the head when the collection was
  sorted and no note has a later \<open>updatedAt\<close>. It returns \<open>undefined\<close>; the id of
  the new note becomes the active selection.
\<close>

theorem createNewNote_effect:
  "let newNote = \<lparr> note_id = newId, title = [], content = [], createdAt = now, updatedAt = now \<rparr>;
       (r, s') = createNewNote stringify now newId s
   in r = Undefined
    \<and> activeNoteId s' = Some newId
    \<and> storage s' = Some (stringify (Arr (map note_js (newNote # notes s))))
    \<and> notes s' = array_sort by_updatedAt_desc (newNote # notes s)
    \<and> mset (notes s') = add_mset newNote (mset (notes s))
    \<and> (sorted_desc (notes s) \<and> (\<forall>n\<in>set (notes s). updatedAt n \<le> now) \<longrightarrow>
         notes s' = newNote # notes s)"
proof -
  let ?new = "\<lparr> note_id = newId, title = [], content = [], createdAt = now, updatedAt = now \<rparr>"
  have "sorted_desc (notes s) \<and> (\<forall>n\<in>set (notes s). updatedAt n \<le> now) \<longrightarrow>
         array_sort by_updatedAt_desc (?new # notes s) = ?new # notes s"
  proof
    assume "sorted_desc (notes s) \<and> (\<forall>n\<in>set (notes s). updatedAt n \<le> now)"
    then have "sorted_desc (?new # notes s)" by (simp add: sorted_desc_def)
    then show "array_sort by_updatedAt_desc (?new # notes s) = ?new # notes s"
      by (rule array_sort_sorted)
  qed
  then show ?thesis
    by (simp add: createNewNote_def Let_def renderNotesList_eq saveToStorage_def mset_array_sort)
qed

theorem createNewNote_effect_witness:
  "sorted_desc (notes one_note) \<and> list_all (\<lambda>n. updatedAt n \<le> 1020) (notes one_note)
   \<and> notes (snd (createNewNote stringify_ids 1020 ''n2'' one_note))
     = \<lparr> note_id = ''n2'', title = [], content = [], createdAt = 1020, updatedAt = 1020 \<rparr>
       # notes one_note
   \<and> activeNoteId (snd (createNewNote stringify_ids 1020 ''n2'' one_note)) = Some ''n2''"
proof -
  have h: "sorted_desc (notes one_note) \<and> list_all (\<lambda>n. updatedAt n \<le> 1020) (notes one_note)"
    by code_simp
  then have h': "sorted_desc (notes one_note) \<and> (\<forall>n\<in>set (notes one_note). updatedAt n \<le> 1020)"
    by (simp add: list_all_iff)
  have "activeNoteId (snd (createNewNote stringify_ids 1020 ''n2'' one_note)) = Some ''n2''
      \<and> (sorted_desc (notes one_note) \<and> (\<forall>n\<in>set (notes one_note). updatedAt n \<le> 1020) \<longrightarrow>
           notes (snd (createNewNote stringify_ids 1020 ''n2'' one_note))
           = \<lparr> note_id = ''n2'', title = [], content = [], createdAt = 1020, updatedAt = 1020 \<rparr>
             # notes one_note)"
    using createNewNote_effect [of "''n2''" 1020 stringify_ids one_note]
    unfolding Let_def split_beta by blast
  with h h' show ?thesis by blast
qed

text \<open>
  C6, as the specification states it, fails: \<open>saveActiveNote\<close> returns \<open>undefined\<close>
  when the active id is not in the collection and when it is, so the value it returns
  does not indicate the failure.
\<close>

theorem saveActiveNote_returns_undefined:
  "getActiveNote (fresh None) = None
   \<and> getActiveNote edited \<noteq> None
   \<and> fst (saveActiveNote stringify_ids 1015 (fresh None)) = Undefined
   \<and> fst (saveActiveNote stringify_ids 1015 edited) = Undefined"
  by code_simp

text \<open>
  C6, amended. \<open>saveActiveNote\<close> changes nothing when no note has the active id. When
  one has, it assigns the two input values to the title and the content of the first
  such note and the current time to its \<open>updatedAt\<close>, leaving its id, its
  \<open>createdAt\<close> and every other note as they are; it stores the collection, sorts it
  and renders the list; nothing else in the state changes. In both cases it returns
  \<open>undefined\<close>.
\<close>

theorem saveActiveNote_effect:
  "(getActiveNote s = None \<longrightarrow> saveActiveNote stringify now s = (Undefined, s)) \<and>
   (\<forall>n. getActiveNote s = Some n \<longrightarrow>
      (let before = takeWhile (\<lambda>m. Some (note_id m) \<noteq> activeNoteId s) (notes s);
           after = tl (dropWhile (\<lambda>m. Some (note_id m) \<noteq> activeNoteId s) (notes s));
           saved = before @ n\<lparr>title := titleInput s, content := contentInput s,
                                updatedAt := now\<rparr> # after
       in notes s = before @ n # after
        \<and> Some (note_id n) = activeNoteId s
        \<and> saveActiveNote stringify now s =
            (Undefined,
             s\<lparr>notes := array_sort by_updatedAt_desc saved,
               notesListEl := array_sort by_updatedAt_desc saved,
               storage := Some (stringify (Arr (map note_js saved)))\<rparr>)))"
proof (intro conjI allI impI)
  assume "getActiveNote s = None"
  then show "saveActiveNote stringify now s = (Undefined, s)"
    by (simp add: saveActiveNote_def)
next
  fix n
  assume a: "getActiveNote s = Some n"
  let ?P = "\<lambda>m. Some (note_id m) = activeNoteId s"
  let ?f = "\<lambda>n. n\<lparr>title := titleInput s, content := contentInput s, updatedAt := now\<rparr>"
  let ?before = "takeWhile (\<lambda>m. Some (note_id m) \<noteq> activeNoteId s) (notes s)"
  let ?after = "tl (dropWhile (\<lambda>m. Some (note_id m) \<noteq> activeNoteId s) (notes s))"
  from a have "find ?P (notes s) = Some n" by (simp add: getActiveNote_def)
  from update_first_split [OF this, of ?f]
  have sp: "notes s = ?before @ n # ?after" "Some (note_id n) = activeNoteId s"
    "update_first ?P ?f (notes s) = ?before @ ?f n # ?after"
    by simp_all
  have "saveActiveNote stringify now s =
          (Undefined,
           s\<lparr>notes := array_sort by_updatedAt_desc (?before @ ?f n # ?after),
             notesListEl := array_sort by_updatedAt_desc (?before @ ?f n # ?after),
             storage := Some (stringify (Arr (map note_js (?before @ ?f n # ?after))))\<rparr>)"
    using a sp(3) by (simp add: saveActiveNote_def Let_def renderNotesList_eq saveToStorage_def)
  with sp(1,2) show "let before = ?before; after = ?after;
           saved = before @ n\<lparr>title := titleInput s, content := contentInput s,
                                updatedAt := now\<rparr> # after
       in notes s = before @ n # after
        \<and> Some (note_id n) = activeNoteId s
        \<and> saveActiveNote stringify now s =
            (Undefined,
             s\<lparr>notes := array_sort by_updatedAt_desc saved,
               notesListEl := array_sort by_updatedAt_desc saved,
               storage := Some (stringify (Arr (map note_js saved)))\<rparr>)"
    unfolding Let_def by blast
qed

theorem saveActiveNote_effect_witness:
  "getActiveNote (fresh None) = None
   \<and> saveActiveNote stringify_ids 1015 (fresh None) = (Undefined, fresh None)
   \<and> getActiveNote edited
     = Some \<lparr> note_id = ''n1'', title = [], content = [], createdAt = 1000, updatedAt = 1000 \<rparr>
   \<and> notes (snd (saveActiveNote stringify_ids 1015 edited))
     = [\<lparr> note_id = ''n1'', title = ''Hello'', content = [], createdAt = 1000, updatedAt = 1015 \<rparr>]"
proof -
  let ?n = "\<lparr> note_id = ''n1'', title = [], content = [], createdAt = 1000, updatedAt = 1000 \<rparr>"
  have a: "getActiveNote (fresh None) = None"
    by code_simp
  have b: "getActiveNote edited = Some ?n"
    by code_simp
  have c: "array_sort by_updatedAt_desc
             (takeWhile (\<lambda>m. Some (note_id m) \<noteq> activeNoteId edited) (notes edited)
              @ ?n\<lparr>title := titleInput edited, content := contentInput edited, updatedAt := 1015\<rparr>
              # tl (dropWhile (\<lambda>m. Some (note_id m) \<noteq> activeNoteId edited) (notes edited)))
           = [\<lparr> note_id = ''n1'', title = ''Hello'', content = [], createdAt = 1000,
                updatedAt = 1015 \<rparr>]"
    by code_simp
  from saveActiveNote_effect [of "fresh None" stringify_ids 1015] a
  have "saveActiveNote stringify_ids 1015 (fresh None) = (Undefined, fresh None)"
    by blast
  moreover from saveActiveNote_effect [of edited stringify_ids 1015] b c
  have "notes (snd (saveActiveNote stringify_ids 1015 edited))
     = [\<lparr> note_id = ''n1'', title = ''Hello'', content = [], createdAt = 1000, updatedAt = 1015 \<rparr>]"
    by (simp add: Let_def)
  ultimately show ?thesis using a b by simp
qed

section \<open>Deleting and the selection\<close>

lemma deleteActiveNote_confirmed:
  assumes "getActiveNote s = Some n"
  shows "deleteActiveNote stringify True s =
     (let kept = filter (\<lambda>n. Some (note_id n) \<noteq> activeNoteId s) (notes s)
      in (Undefined,
          renderEditor
            (s\<lparr>activeNoteId := (case kept of [] \<Rightarrow> None | n # ns \<Rightarrow> Some (note_id n)),
               storage := Some (stringify (Arr (map note_js kept))),
               notes := array_sort by_updatedAt_desc kept,
               notesListEl := array_sort by_updatedAt_desc kept\<rparr>)))"
  using assms
  by (simp add: deleteActiveNote_def Let_def renderNotesList_eq saveToStorage_def)

text \<open>
  C7, as the specification states it, fails: \<open>deleteActiveNote\<close> returns
  \<open>undefined\<close>, not a boolean that tells whether the collection is now empty.
\<close>

theorem deleteActiveNote_returns_undefined:
  "getActiveNote one_note \<noteq> None
   \<and> notes (snd (deleteActiveNote stringify_ids True one_note)) = []
   \<and> fst (deleteActiveNote stringify_ids True one_note) = Undefined
   \<and> fst (deleteActiveNote stringify_ids True one_note) \<noteq> Bool True"
  by code_simp

text \<open>
  C7, amended. \<open>deleteActiveNote\<close> changes nothing when no note has the active id,
  and when \<open>confirm\<close> answers false. Otherwise it removes every note with the active
  id from the collection and keeps all the others, stores the remaining notes, and
  sorts and renders them. It returns \<open>undefined\<close>; whether the collection is now
  empty shows in the active selection, which is null exactly then.
\<close>

theorem deleteActiveNote_effect:
  "(getActiveNote s = None \<or> \<not> ok \<longrightarrow> deleteActiveNote stringify ok s = (Undefined, s)) \<and>
   (getActiveNote s \<noteq> None \<and> ok \<longrightarrow>
      (let kept = filter (\<lambda>n. Some (note_id n) \<noteq> activeNoteId s) (notes s);
           (r, s') = deleteActiveNote stringify ok s
       in r = Undefined
        \<and> storage s' = Some (stringify (Arr (map note_js kept)))
        \<and> notes s' = array_sort by_updatedAt_desc kept
        \<and> mset (notes s')
          = filter_mset (\<lambda>n. Some (note_id n) \<noteq> activeNoteId s) (mset (notes s))
        \<and> (activeNoteId s' = None \<longleftrightarrow> notes s' = [])))"
proof (intro conjI impI)
  assume "getActiveNote s = None \<or> \<not> ok"
  then show "deleteActiveNote stringify ok s = (Undefined, s)"
    by (auto simp: deleteActiveNote_def split: option.splits)
next
  assume "getActiveNote s \<noteq> None \<and> ok"
  then obtain n where n: "getActiveNote s = Some n" and ok by auto
  show "let kept = filter (\<lambda>n. Some (note_id n) \<noteq> activeNoteId s) (notes s);
           (r, s') = deleteActiveNote stringify ok s
       in r = Undefined
        \<and> storage s' = Some (stringify (Arr (map note_js kept)))
        \<and> notes s' = array_sort by_updatedAt_desc kept
        \<and> mset (notes s')
          = filter_mset (\<lambda>n. Some (note_id n) \<noteq> activeNoteId s) (mset (notes s))
        \<and> (activeNoteId s' = None \<longleftrightarrow> notes s' = [])"
    using \<open>ok\<close> deleteActiveNote_confirmed [OF n, of stringify]
    by (simp add: Let_def mset_array_sort array_sort_Nil_iff split: list.splits)
qed

theorem deleteActiveNote_effect_witness:
  "getActiveNote two_notes \<noteq> None
   \<and> notes (snd (deleteActiveNote stringify_ids True two_notes))
     = [\<lparr> note_id = ''n1'', title = [], content = [], createdAt = 1000, updatedAt = 1000 \<rparr>]
   \<and> storage (snd (deleteActiveNote stringify_ids True two_notes)) = Some ''n1;''
   \<and> activeNoteId (snd (deleteActiveNote stringify_ids True two_notes)) \<noteq> None
   \<and> getActiveNote (fresh None) = None
   \<and> deleteActiveNote stringify_ids True (fresh None) = (Undefined, fresh None)"
proof -
  let ?kept = "filter (\<lambda>n. Some (note_id n) \<noteq> activeNoteId two_notes) (notes two_notes)"
  have a: "getActiveNote two_notes \<noteq> None"
    by code_simp
  have b: "getActiveNote (fresh None) = None"
    by code_simp
  have k: "array_sort by_updatedAt_desc ?kept
           = [\<lparr> note_id = ''n1'', title = [], content = [], createdAt = 1000, updatedAt = 1000 \<rparr>]"
    by code_simp
  have t: "Some (stringify_ids (Arr (map note_js ?kept))) = Some ''n1;''"
    by code_simp
  have "storage (snd (deleteActiveNote stringify_ids True two_notes))
          = Some (stringify_ids (Arr (map note_js ?kept)))
      \<and> notes (snd (deleteActiveNote stringify_ids True two_notes))
          = array_sort by_updatedAt_desc ?kept
      \<and> (activeNoteId (snd (deleteActiveNote stringify_ids True two_notes)) = None
           \<longleftrightarrow> notes (snd (deleteActiveNote stringify_ids True two_notes)) = [])"
    using deleteActiveNote_effect [of two_notes True stringify_ids] a
    unfolding Let_def split_beta by blast
  moreover have "deleteActiveNote stringify_ids True (fresh None) = (Undefined, fresh None)"
    using deleteActiveNote_effect [of "fresh None" True stringify_ids] b by blast
  ultimately show ?thesis using a b k t by simp
qed

text \<open>
  C2, as the specification states it, fails: the stored value may hold several records
  with one id, \<open>init\<close> keeps them all, and deleting the active note removes all of
  them. From a collection of two such notes the selection becomes null, although the
  collection had more than one note.
\<close>

theorem delete_twins_clears_selection:
  "length (notes twins) = 2
   \<and> getActiveNote twins \<noteq> None
   \<and> notes (snd (deleteActiveNote stringify_ids True twins)) = []
   \<and> activeNoteId (snd (deleteActiveNote stringify_ids True twins)) = None"
  by code_simp

text \<open>
  C2, amended. In every state reached from \<open>init\<close>, deleting the active note (with
  the confirmation given) makes the selection null when no note with another id remains,
  in particular when the collection had one note; when notes with another id remain,
  they are the collection, in their order, and the selection becomes the id of the
  first of them, whose \<open>updatedAt\<close> is the greatest among them.
\<close>

theorem delete_reselects:
  assumes "s = exec stringify tr (init parse clk s0)"
    and "getActiveNote s \<noteq> None"
  shows "let kept = filter (\<lambda>n. Some (note_id n) \<noteq> activeNoteId s) (notes s);
             s' = snd (deleteActiveNote stringify True s)
         in (length (notes s) = 1 \<longrightarrow> activeNoteId s' = None)
          \<and> (kept = [] \<longrightarrow> activeNoteId s' = None)
          \<and> (kept \<noteq> [] \<longrightarrow>
               notes s' = kept
             \<and> activeNoteId s' = Some (note_id (hd (notes s')))
             \<and> (\<forall>m\<in>set (notes s'). updatedAt m \<le> updatedAt (hd (notes s'))))"
proof -
  let ?kept = "filter (\<lambda>n. Some (note_id n) \<noteq> activeNoteId s) (notes s)"
  from assms(2) obtain n where n: "getActiveNote s = Some n" by auto
  from assms(1) have "listed s" by (simp add: listed_exec listed_init)
  then have "sorted_desc (notes s)" by (simp add: listed_def)
  then have sk: "sorted_desc ?kept" by (simp add: sorted_desc_def sorted_wrt_filter)
  then have id: "array_sort by_updatedAt_desc ?kept = ?kept" by (rule array_sort_sorted)
  have one: "length (notes s) = 1 \<longrightarrow> ?kept = []"
  proof
    assume "length (notes s) = 1"
    then obtain m where "notes s = [m]" by (cases "notes s") auto
    with n show "?kept = []" by (auto simp: getActiveNote_def split: if_splits)
  qed
  have top: "?kept \<noteq> [] \<longrightarrow> (\<forall>m\<in>set ?kept. updatedAt m \<le> updatedAt (hd ?kept))"
    using sk by (cases ?kept) (auto simp: sorted_desc_def)
  show ?thesis
    using one top id deleteActiveNote_confirmed [OF n, of stringify]
    by (simp add: Let_def split: list.splits)
qed

theorem delete_reselects_witness:
  "getActiveNote two_notes \<noteq> None
   \<and> filter (\<lambda>n. Some (note_id n) \<noteq> activeNoteId two_notes) (notes two_notes) \<noteq> []
   \<and> activeNoteId (snd (deleteActiveNote stringify_ids True two_notes)) = Some ''n1''
   \<and> getActiveNote one_note \<noteq> None
   \<and> length (notes one_note) = 1
   \<and> activeNoteId (snd (deleteActiveNote stringify_ids True one_note)) = None"
proof -
  let ?s' = "snd (deleteActiveNote stringify_ids True two_notes)"
  have r2: "two_notes = exec stringify_ids
       [(1000, User (ClickCreate ''n1'')), (1020, User (ClickCreate ''n2''))]
       (init (parse_only ''[]'' (Arr [])) (steady 0) (fresh (Some ''[]'')))"
    by (simp add: two_notes_def empty_page_def)
  have r1: "one_note = exec stringify_ids [(1000, User (ClickCreate ''n1''))]
       (init (parse_only ''[]'' (Arr [])) (steady 0) (fresh (Some ''[]'')))"
    by (simp add: one_note_def empty_page_def)
  have a2: "getActiveNote two_notes \<noteq> None"
    by code_simp
  have a1: "getActiveNote one_note \<noteq> None"
    by code_simp
  have k: "filter (\<lambda>n. Some (note_id n) \<noteq> activeNoteId two_notes) (notes two_notes) \<noteq> []"
    by code_simp
  have l: "length (notes one_note) = 1"
    by code_simp
  have "activeNoteId ?s' = Some (note_id (hd (notes ?s')))"
    using delete_reselects [OF r2 a2] k unfolding Let_def by blast
  moreover have "note_id (hd (notes ?s')) = ''n1''"
    by code_simp
  moreover have "activeNoteId (snd (deleteActiveNote stringify_ids True one_note)) = None"
    using delete_reselects [OF r1 a1] l unfolding Let_def by blast
  ultimately show ?thesis using a1 a2 k l by simp
qed

section \<open>Autosave\<close>

lemma saveActiveNote_timers [simp]:
  "timers (snd (saveActiveNote stringify now s)) = timers s"
  "autosaveTimer (snd (saveActiveNote stringify now s)) = autosaveTimer s"
  by (simp_all add: saveActiveNote_def Let_def renderNotesList_eq saveToStorage_def
      split: option.splits)

lemma action_timers [simp]:
  "timers (snd (createNewNote stringify now newId s)) = timers s"
  "autosaveTimer (snd (createNewNote stringify now newId s)) = autosaveTimer s"
  "timers (snd (openNote i s)) = timers s"
  "autosaveTimer (snd (openNote i s)) = autosaveTimer s"
  "timers (snd (deleteActiveNote stringify ok s)) = timers s"
  "autosaveTimer (snd (deleteActiveNote stringify ok s)) = autosaveTimer s"
  by (simp_all add: createNewNote_def openNote_def deleteActiveNote_def Let_def
      renderNotesList_eq renderEditor_def saveToStorage_def split: option.splits)

lemma saveActiveNote_member:
  assumes "getActiveNote s = Some n"
  shows "n\<lparr>title := titleInput s, content := contentInput s, updatedAt := now\<rparr>
           \<in> set (notes (snd (saveActiveNote stringify now s)))"
proof -
  let ?P = "\<lambda>n. Some (note_id n) = activeNoteId s"
  let ?f = "\<lambda>n. n\<lparr>title := titleInput s, content := contentInput s, updatedAt := now\<rparr>"
  from assms have "find ?P (notes s) = Some n"
    by (simp add: getActiveNote_def)
  then have "?f n \<in> set (update_first ?P ?f (notes s))"
    by (rule update_first_member)
  then have "?f n \<in># mset (array_sort by_updatedAt_desc (update_first ?P ?f (notes s)))"
    by (simp add: mset_array_sort)
  with assms show ?thesis
    by (simp add: saveActiveNote_def Let_def renderNotesList_eq saveToStorage_def)
qed

subsection \<open>One pending timeout\<close>

lemma tracked_same:
  "timers s' = timers s \<Longrightarrow> autosaveTimer s' = autosaveTimer s \<Longrightarrow> tracked s' = tracked s"
  unfolding tracked_def by metis

lemma tracked_length: "tracked s \<Longrightarrow> length (timers s) \<le> 1"
  by (auto simp: tracked_def split: list.splits)

lemma scheduleAutosave_tracked:
  assumes "tracked s"
  shows "timers (scheduleAutosave now s) = [(Suc (lastTimer s), now + 350)]"
    and "autosaveTimer (scheduleAutosave now s) = Some (Suc (lastTimer s))"
    and "activeNoteId (scheduleAutosave now s) = activeNoteId s"
    and "titleInput (scheduleAutosave now s) = titleInput s"
    and "contentInput (scheduleAutosave now s) = contentInput s"
    and "storage (scheduleAutosave now s) = storage s"
    and "notes (scheduleAutosave now s) = notes s"
  using assms
  by (auto simp: scheduleAutosave_def setTimeout_def clearTimeout_def tracked_def Let_def
      split: option.splits list.splits prod.splits if_splits)

lemma tracked_input_listener: "tracked s \<Longrightarrow> tracked (input_listener now s)"
  by (simp add: input_listener_def renderNotesList_eq tracked_def scheduleAutosave_tracked)

lemma tracked_dispatch:
  assumes "tracked s"
  shows "tracked (dispatch stringify e now s)"
proof (cases "is_edit e")
  case True
  then obtain v where "e = InputTitle v \<or> e = InputContent v"
    by (cases e) simp_all
  moreover have "tracked (s\<lparr>titleInput := v\<rparr>) = tracked s"
    by (rule tracked_same) simp_all
  moreover have "tracked (s\<lparr>contentInput := v\<rparr>) = tracked s"
    by (rule tracked_same) simp_all
  ultimately show ?thesis
    using assms by (auto simp: tracked_input_listener)
next
  case False
  have "tracked (dispatch stringify e now s) = tracked s"
  proof (rule tracked_same)
    from False show "timers (dispatch stringify e now s) = timers s"
      by (cases e) simp_all
    from False show "autosaveTimer (dispatch stringify e now s) = autosaveTimer s"
      by (cases e) simp_all
  qed
  with assms show ?thesis by simp
qed

lemma tracked_fire:
  assumes "tracked s"
  shows "tracked (fire stringify h now s)"
proof -
  from assms have "tracked (clearTimeout h s)"
    by (auto simp: tracked_def clearTimeout_def split: list.splits)
  moreover have "tracked (snd (saveActiveNote stringify now (clearTimeout h s)))
                 = tracked (clearTimeout h s)"
    by (rule tracked_same) simp_all
  ultimately show ?thesis
    using assms by (simp add: fire_def)
qed

lemma tracked_exec: "tracked s \<Longrightarrow> tracked (exec stringify tr s)"
  unfolding exec_def
proof (induction tr arbitrary: s)
  case Nil
  then show ?case by simp
next
  case (Cons st tr)
  obtain now x where "st = (now, x)" by (cases st)
  with Cons.prems have "tracked (step_fn stringify st s)"
    by (cases x) (simp_all add: tracked_dispatch tracked_fire)
  with Cons.IH show ?case by simp
qed

text \<open>
  From the start of the script on, whatever happens, at most one timeout is pending and
  \<open>autosaveTimer\<close> holds its handle.
\<close>

lemma tracked_reachable: "tracked (exec stringify tr (init parse clk (fresh raw)))"
proof -
  have "tracked (fresh raw)" by (simp add: tracked_def fresh_def)
  moreover have "tracked (init parse clk (fresh raw)) = tracked (fresh raw)"
    by (rule tracked_same)
      (simp_all add: init_def Let_def renderNotesList_eq sortNotesByUpdatedAtDesc_def)
  ultimately have "tracked (init parse clk (fresh raw))" by simp
  then show ?thesis by (rule tracked_exec)
qed

subsection \<open>A burst of edits\<close>

lemma advance_nothing_due:
  assumes "list_all (\<lambda>(h, d). t < d) (timers s)"
  shows "advance stringify t s = ([], s)"
proof -
  from assms have "filter (\<lambda>(h, d). d \<le> t) (timers s) = []"
    by (auto simp: list_all_iff filter_empty_conv)
  then show ?thesis by (simp add: advance_def due_def)
qed

lemma advance_single:
  assumes "timers s = [(h, d)]" and "d \<le> T"
  shows "advance stringify T s = ([d], snd (saveActiveNote stringify d (s\<lparr>timers := []\<rparr>)))"
  using assms by (simp add: advance_def due_def fire_def clearTimeout_def)

lemma input_listener_edit:
  assumes "tracked s" and "activeNoteId s \<noteq> None" and "activeNoteId s \<noteq> Some []"
  shows "timers (input_listener now s) = [(Suc (lastTimer s), now + 350)]"
    and "autosaveTimer (input_listener now s) = Some (Suc (lastTimer s))"
    and "activeNoteId (input_listener now s) = activeNoteId s"
    and "titleInput (input_listener now s) = titleInput s"
    and "contentInput (input_listener now s) = contentInput s"
    and "storage (input_listener now s) = storage s"
proof -
  from assms(2,3) have a: "\<not> (activeNoteId s = None \<or> activeNoteId s = Some [])"
    by simp
  have "input_listener now s = renderNotesList (scheduleAutosave now s)"
    unfolding input_listener_def using a by (rule if_not_P)
  with assms(1) show "timers (input_listener now s) = [(Suc (lastTimer s), now + 350)]"
    and "autosaveTimer (input_listener now s) = Some (Suc (lastTimer s))"
    and "activeNoteId (input_listener now s) = activeNoteId s"
    and "titleInput (input_listener now s) = titleInput s"
    and "contentInput (input_listener now s) = contentInput s"
    and "storage (input_listener now s) = storage s"
    by (simp_all add: renderNotesList_eq scheduleAutosave_tracked)
qed

lemma dispatch_edit:
  assumes "is_edit e" and "tracked s" and "activeNoteId s \<noteq> None" and "activeNoteId s \<noteq> Some []"
  shows "timers (dispatch stringify e now s) = [(Suc (lastTimer s), now + 350)]"
    and "autosaveTimer (dispatch stringify e now s) = Some (Suc (lastTimer s))"
    and "activeNoteId (dispatch stringify e now s) = activeNoteId s"
    and "(titleInput (dispatch stringify e now s), contentInput (dispatch stringify e now s))
           = stage (titleInput s, contentInput s) e"
    and "storage (dispatch stringify e now s) = storage s"
proof -
  from assms(1) obtain v where e: "e = InputTitle v \<or> e = InputContent v"
    by (cases e) simp_all
  have "tracked (s\<lparr>titleInput := v\<rparr>) = tracked s"
    by (rule tracked_same) simp_all
  with assms(2) have t: "tracked (s\<lparr>titleInput := v\<rparr>)" by simp
  have "tracked (s\<lparr>contentInput := v\<rparr>) = tracked s"
    by (rule tracked_same) simp_all
  with assms(2) have c: "tracked (s\<lparr>contentInput := v\<rparr>)" by simp
  note it = input_listener_edit [OF t, of now] and ic = input_listener_edit [OF c, of now]
  from e assms(3,4) it(1) ic(1)
  show "timers (dispatch stringify e now s) = [(Suc (lastTimer s), now + 350)]"
    by auto
  from e assms(3,4) it(2) ic(2)
  show "autosaveTimer (dispatch stringify e now s) = Some (Suc (lastTimer s))"
    by auto
  from e assms(3,4) it(3) ic(3)
  show "activeNoteId (dispatch stringify e now s) = activeNoteId s"
    by auto
  from e assms(3,4) it(4,5) ic(4,5)
  show "(titleInput (dispatch stringify e now s), contentInput (dispatch stringify e now s))
           = stage (titleInput s, contentInput s) e"
    by auto
  from e assms(3,4) it(6) ic(6)
  show "storage (dispatch stringify e now s) = storage s"
    by auto
qed

text \<open>
  During a burst of edits no timeout fires, and after it exactly one is pending, due
  350 ms after the last edit; the inputs hold the values staged last.
\<close>

lemma run_edits:
  assumes "es \<noteq> []" and "list_all is_edit (map snd es)" and "closely_spaced (map fst es)"
    and "tracked s" and "list_all (\<lambda>(h, d). fst (hd es) < d) (timers s)"
    and "activeNoteId s \<noteq> None" and "activeNoteId s \<noteq> Some []"
  shows "fst (run stringify es s) = []
       \<and> (\<exists>h. h \<noteq> 0 \<and> timers (snd (run stringify es s)) = [(h, fst (last es) + 350)]
              \<and> autosaveTimer (snd (run stringify es s)) = Some h)
       \<and> (titleInput (snd (run stringify es s)), contentInput (snd (run stringify es s)))
           = staged (map snd es) s
       \<and> activeNoteId (snd (run stringify es s)) = activeNoteId s
       \<and> storage (snd (run stringify es s)) = storage s"
  using assms
proof (induction es arbitrary: s)
  case Nil
  then show ?case by simp
next
  case (Cons x rest)
  obtain t e where x: "x = (t, e)" by (cases x)
  let ?s2 = "dispatch stringify e t s"
  from Cons.prems x have e: "is_edit e" by simp
  from Cons.prems x have adv: "advance stringify t s = ([], s)"
    by (simp add: advance_nothing_due)
  note d = dispatch_edit [OF e Cons.prems(4) Cons.prems(6) Cons.prems(7), of stringify t]
  have st: "staged (map snd (x # rest)) s = staged (map snd rest) ?s2"
    using d(4) x by (simp add: staged_def)
  show ?case
  proof (cases rest)
    case Nil
    with x adv d show ?thesis
      by (simp add: staged_def)
  next
    case (Cons y rest')
    obtain t' e' where y: "y = (t', e')" by (cases y)
    from Cons.prems(3) x Cons y have gap: "t \<le> t'" "t' < t + 350"
      and cs: "closely_spaced (map fst rest)"
      by (simp_all add: closely_spaced_def)
    have tr: "tracked ?s2"
      using d(1,2) by (simp add: tracked_def)
    have nd: "list_all (\<lambda>(h, d). fst (hd rest) < d) (timers ?s2)"
      using d(1) gap Cons y by simp
    have "fst (run stringify rest ?s2) = []
       \<and> (\<exists>h. h \<noteq> 0 \<and> timers (snd (run stringify rest ?s2)) = [(h, fst (last rest) + 350)]
              \<and> autosaveTimer (snd (run stringify rest ?s2)) = Some h)
       \<and> (titleInput (snd (run stringify rest ?s2)), contentInput (snd (run stringify rest ?s2)))
           = staged (map snd rest) ?s2
       \<and> activeNoteId (snd (run stringify rest ?s2)) = activeNoteId ?s2
       \<and> storage (snd (run stringify rest ?s2)) = storage ?s2"
      using Cons.IH [of ?s2] Cons Cons.prems(2) cs tr nd d(3) Cons.prems(6,7) x
      by simp
    with x adv d(3,5) st Cons show ?thesis
      by (simp add: split_beta)
  qed
qed

lemma closely_spaced_take:
  assumes "closely_spaced ts"
  shows "closely_spaced (take k ts)"
proof -
  from assms have "successively (\<lambda>a b. a \<le> b \<and> b < a + 350) (take k ts @ drop k ts)"
    by (simp add: closely_spaced_def)
  then show ?thesis
    unfolding closely_spaced_def successively_append_iff by blast
qed

text \<open>
  C3. Take one or more edits, each less than 350 ms after the one before, made while a
  note is selected and no timeout is due. Then exactly one save runs: none during the
  edits, and one 350 ms after the last edit, when the only pending timeout fires. That
  save is \<open>saveActiveNote\<close> on the input values staged by the last edit, which it
  writes to the active note. Each edit cancels the timeout pending before it arms its
  own, so at no moment is more than one timeout pending, and none is left afterwards.
\<close>

theorem autosave_debounced:
  assumes "es \<noteq> []" and "list_all is_edit (map snd es)" and "closely_spaced (map fst es)"
    and "tracked s" and "list_all (\<lambda>(h, d). fst (hd es) < d) (timers s)"
    and "activeNoteId s \<noteq> None" and "activeNoteId s \<noteq> Some []"
    and "fst (last es) + 350 \<le> T"
  shows "let (l1, s1) = run stringify es s;
             (l2, s2) = advance stringify T s1
         in l1 @ l2 = [fst (last es) + 350]
          \<and> (titleInput s1, contentInput s1) = staged (map snd es) s
          \<and> s2 = snd (saveActiveNote stringify (fst (last es) + 350) (s1\<lparr>timers := []\<rparr>))
          \<and> (\<forall>n. getActiveNote s1 = Some n \<longrightarrow>
                n\<lparr>title := fst (staged (map snd es) s), content := snd (staged (map snd es) s),
                  updatedAt := fst (last es) + 350\<rparr> \<in> set (notes s2))
          \<and> timers s2 = []
          \<and> (\<forall>k\<le>length es. length (timers (snd (run stringify (take k es) s))) \<le> 1)"
proof -
  let ?s1 = "snd (run stringify es s)"
  let ?d = "fst (last es) + 350"
  let ?s2 = "snd (saveActiveNote stringify ?d (?s1\<lparr>timers := []\<rparr>))"
  from run_edits [OF assms(1-7), of stringify]
  obtain h where log: "fst (run stringify es s) = []"
    and tm: "timers ?s1 = [(h, ?d)]"
    and inp: "(titleInput ?s1, contentInput ?s1) = staged (map snd es) s"
    by blast
  from inp have ti: "fst (staged (map snd es) s) = titleInput ?s1"
    and co: "snd (staged (map snd es) s) = contentInput ?s1"
    by (simp_all add: prod_eq_iff)
  from tm assms(8) have adv: "advance stringify T ?s1 = ([?d], ?s2)"
    by (rule advance_single)
  have saved: "\<forall>n. getActiveNote ?s1 = Some n \<longrightarrow>
                n\<lparr>title := fst (staged (map snd es) s), content := snd (staged (map snd es) s),
                  updatedAt := ?d\<rparr> \<in> set (notes ?s2)"
  proof (intro allI impI)
    fix n assume "getActiveNote ?s1 = Some n"
    then have "getActiveNote (?s1\<lparr>timers := []\<rparr>) = Some n"
      by (simp add: getActiveNote_def)
    from saveActiveNote_member [OF this, of ?d stringify]
    show "n\<lparr>title := fst (staged (map snd es) s), content := snd (staged (map snd es) s),
                  updatedAt := ?d\<rparr> \<in> set (notes ?s2)"
      by (simp add: ti co)
  qed
  have one: "\<forall>k\<le>length es. length (timers (snd (run stringify (take k es) s))) \<le> 1"
  proof (intro allI impI)
    fix k assume "k \<le> length es"
    show "length (timers (snd (run stringify (take k es) s))) \<le> 1"
    proof (cases k)
      case 0
      with tracked_length [OF assms(4)] show ?thesis by simp
    next
      case (Suc j)
      with assms(1) have ne: "take k es \<noteq> []" by simp
      have ed: "list_all is_edit (map snd (take k es))"
        using assms(2) by (auto simp: list_all_iff dest: in_set_takeD)
      have cs: "closely_spaced (map fst (take k es))"
        using closely_spaced_take [OF assms(3), of k] by (simp add: take_map)
      have hd: "hd (take k es) = hd es"
        using Suc assms(1) by (cases es) simp_all
      from assms(5) hd
      have nd: "list_all (\<lambda>(h, d). fst (hd (take k es)) < d) (timers s)"
        by simp
      from run_edits [OF ne ed cs assms(4) nd assms(6,7), of stringify]
      show ?thesis by auto
    qed
  qed
  from log adv inp saved one show ?thesis
    by (simp add: split_beta)
qed

theorem autosave_debounced_witness:
  "typing \<noteq> [] \<and> list_all is_edit (map snd typing) \<and> closely_spaced (map fst typing)
   \<and> tracked one_note \<and> list_all (\<lambda>(h, d). fst (hd typing) < d) (timers one_note)
   \<and> activeNoteId one_note \<noteq> None \<and> activeNoteId one_note \<noteq> Some []
   \<and> fst (last typing) + 350 \<le> 2000
   \<and> fst (run stringify_ids typing one_note)
       @ fst (advance stringify_ids 2000 (snd (run stringify_ids typing one_note))) = [1550]
   \<and> notes (snd (advance stringify_ids 2000 (snd (run stringify_ids typing one_note))))
     = [\<lparr> note_id = ''n1'', title = ''Hello'', content = ''World'', createdAt = 1000,
          updatedAt = 1550 \<rparr>]"
proof -
  have h1: "typing \<noteq> []" by code_simp
  have h2: "list_all is_edit (map snd typing)" by code_simp
  have h3: "closely_spaced (map fst typing)" by code_simp
  have h4: "tracked one_note" by code_simp
  have h5: "list_all (\<lambda>(h, d). fst (hd typing) < d) (timers one_note)" by code_simp
  have h6: "activeNoteId one_note \<noteq> None" by code_simp
  have h7: "activeNoteId one_note \<noteq> Some []" by code_simp
  have h8: "fst (last typing) + 350 \<le> 2000" by code_simp
  have l: "fst (last typing) + 350 = 1550" by code_simp
  have n: "notes (snd (advance stringify_ids 2000 (snd (run stringify_ids typing one_note))))
     = [\<lparr> note_id = ''n1'', title = ''Hello'', content = ''World'', createdAt = 1000,
          updatedAt = 1550 \<rparr>]"
    by code_simp
  have "fst (run stringify_ids typing one_note)
       @ fst (advance stringify_ids 2000 (snd (run stringify_ids typing one_note)))
     = [fst (last typing) + 350]"
    using autosave_debounced [OF h1 h2 h3 h4 h5 h6 h7 h8, of stringify_ids]
    unfolding Let_def split_beta by blast
  with l h1 h2 h3 h4 h5 h6 h7 h8 n show ?thesis by simp
qed

text \<open>
  C4, as the specification states it, fails: the explicit save does not cancel the
  pending timeout. After an edit at time 1010 and a click on the save button at time
  1100 the timeout armed by the edit is still pending; it fires at time 1360 and saves
  the note once more.
\<close>

theorem explicit_save_leaves_timer:
  "timers (snd (run stringify_ids [(1010, InputTitle ''Hello''), (1100, ClickSave)] one_note))
     = [(1, 1360)]
   \<and> map updatedAt
       (notes (snd (run stringify_ids [(1010, InputTitle ''Hello''), (1100, ClickSave)] one_note)))
     = [1100]
   \<and> fst (advance stringify_ids 1360
            (snd (run stringify_ids [(1010, InputTitle ''Hello''), (1100, ClickSave)] one_note)))
     = [1360]
   \<and> map updatedAt
       (notes (snd (advance stringify_ids 1360
            (snd (run stringify_ids [(1010, InputTitle ''Hello''), (1100, ClickSave)] one_note)))))
     = [1360]"
  by code_simp

text \<open>
  C4, amended. An explicit save (the save button, or the key press that is the save
  combination) runs \<open>saveActiveNote\<close> at once and leaves the scheduler as it was: the
  pending timeouts and \<open>autosaveTimer\<close> are unchanged, so the timeouts that fire
  afterwards are the same as if there had been no explicit save.
\<close>

theorem explicit_save_keeps_timer:
  assumes "is_explicit_save e"
  shows "let s' = dispatch stringify e now s
         in s' = snd (saveActiveNote stringify now s)
          \<and> timers s' = timers s
          \<and> autosaveTimer s' = autosaveTimer s
          \<and> fst (advance stringify T s') = fst (advance stringify T s)"
  using assms by (cases e) (simp_all add: Let_def advance_def due_def)

theorem explicit_save_keeps_timer_witness:
  "is_explicit_save (KeyDown False False True ''s'')
   \<and> timers edited = [(1, 1360)]
   \<and> timers (dispatch stringify_ids (KeyDown False False True ''s'') 1100 edited) = [(1, 1360)]
   \<and> autosaveTimer (dispatch stringify_ids (KeyDown False False True ''s'') 1100 edited)
     = Some 1"
proof -
  have h: "is_explicit_save (KeyDown False False True ''s'')" by code_simp
  have t: "timers edited = [(1, 1360)]" by code_simp
  have a: "autosaveTimer edited = Some 1" by code_simp
  have "timers (dispatch stringify_ids (KeyDown False False True ''s'') 1100 edited) = timers edited
      \<and> autosaveTimer (dispatch stringify_ids (KeyDown False False True ''s'') 1100 edited)
        = autosaveTimer edited"
    using explicit_save_keeps_timer [OF h, of stringify_ids 1100 edited]
    unfolding Let_def by blast
  with h t a show ?thesis by simp
qed

end
